theory Spec2Isabelle
  imports Complex_Main
begin

section \<open>JSON values as the handlers see them\<close>

text \<open>
  Identifiers (\<open>id\<close>, \<open>video_id\<close>) are JSON scalars chosen by the caller. Python's
  \<open>None\<close> is \<open>JNull\<close>; \<open>data.get("video_id")\<close> yields \<open>None\<close> both for an absent key
  and for an explicit null, so one constructor stands for both.
\<close>

datatype jval = JNull | JBool bool | JInt int | JStr string

text \<open>Python truthiness, as tested by \<open>if video_id\<close>.\<close>

fun truthy :: "jval \<Rightarrow> bool" where
  "truthy JNull = False"
| "truthy (JBool b) = b"
| "truthy (JInt n) = (n \<noteq> 0)"
| "truthy (JStr s) = (s \<noteq> [])"

text \<open>Python \<open>==\<close> on these scalars: \<open>bool\<close> is a subtype of \<open>int\<close>, so \<open>True == 1\<close>.\<close>

fun py_eq :: "jval \<Rightarrow> jval \<Rightarrow> bool" where
  "py_eq JNull JNull = True"
| "py_eq (JBool a) (JBool b) = (a = b)"
| "py_eq (JBool a) (JInt n) = (n = (if a then 1 else 0))"
| "py_eq (JInt n) (JBool a) = (n = (if a then 1 else 0))"
| "py_eq (JInt m) (JInt n) = (m = n)"
| "py_eq (JStr s) (JStr t) = (s = t)"
| "py_eq _ _ = False"

section \<open>Python's \<open>str\<close> on integers\<close>

definition digit_char :: "nat \<Rightarrow> char" where
  "digit_char k = ''0123456789'' ! k"

fun str_nat :: "nat \<Rightarrow> string" where
  "str_nat n = (if n < 10 then [digit_char n] else str_nat (n div 10) @ [digit_char (n mod 10)])"

declare str_nat.simps [simp del]

definition str_int :: "int \<Rightarrow> string" where
  "str_int i = (if i < 0 then CHR ''-'' # str_nat (nat (- i)) else str_nat (nat i))"

text \<open>Reading a decimal string back; used only to show that \<open>str_nat\<close> is injective.\<close>

definition digit_val :: "char \<Rightarrow> nat" where
  "digit_val c = length (takeWhile (\<lambda>x. x \<noteq> c) ''0123456789'')"

definition nat_of_str :: "string \<Rightarrow> nat" where
  "nat_of_str s = foldl (\<lambda>a c. 10 * a + digit_val c) 0 s"

section \<open>Rounding as Python's \<open>round(x, ndigits)\<close>\<close>

text \<open>
  Numbers are modelled as exact reals: the binary rounding of float32 and float64
  arithmetic is not represented. \<open>round\<close> rounds to the nearest multiple of
  \<open>10 ^ -ndigits\<close>, ties to the even neighbour.
\<close>

definition round_half_even :: "real \<Rightarrow> int" where
  "round_half_even x =
     (let f = \<lfloor>x\<rfloor>; r = x - of_int f
      in if r < 1 / 2 then f else if 1 / 2 < r then f + 1 else if even f then f else f + 1)"

definition py_round :: "real \<Rightarrow> nat \<Rightarrow> real" where
  "py_round x nd = of_int (round_half_even (x * 10 ^ nd)) / 10 ^ nd"

section \<open>The vector index library (faiss.IndexFlatL2)\<close>

text \<open>
  The index is third-party code. Its contract, as the handlers use it: a fixed
  dimension \<open>d\<close>, the stored vectors in insertion order, \<open>ntotal\<close> their number,
  \<open>add\<close> appending a batch (asserting the dimension), \<open>search\<close> returning the \<open>k\<close>
  nearest stored vectors by squared Euclidean distance in ascending order (asserting
  the dimension and \<open>k > 0\<close>), padded with position \<open>-1\<close> when fewer than \<open>k\<close> exist.
\<close>

record flat_index =
  dim :: nat
  xb :: "real list list"

definition IndexFlatL2 :: "nat \<Rightarrow> flat_index" where
  "IndexFlatL2 n = \<lparr>dim = n, xb = []\<rparr>"

definition ntotal :: "flat_index \<Rightarrow> nat" where
  "ntotal ix = length (xb ix)"

definition l2sq :: "real list \<Rightarrow> real list \<Rightarrow> real" where
  "l2sq u v = sum_list (map (\<lambda>(a, b). (a - b)\<^sup>2) (zip u v))"

definition flat_add :: "flat_index \<Rightarrow> real list list \<Rightarrow> flat_index" where
  "flat_add ix vs = ix\<lparr>xb := xb ix @ vs\<rparr>"

definition flat_search :: "flat_index \<Rightarrow> real list \<Rightarrow> nat \<Rightarrow> (real \<times> int) list" where
  "flat_search ix q k =
     take k (sort_key fst (zip (map (l2sq q) (xb ix)) (map int [0..<ntotal ix])))
       @ replicate (k - ntotal ix) (0, - 1)"

section \<open>Service state of the embedding service\<close>

record meta_entry =
  transcript_id :: jval
  video_id :: jval

type_synonym metadata_map = "string \<rightharpoonup> meta_entry"

text \<open>
  The globals \<open>model\<close>, \<open>faiss_index\<close>, \<open>metadata\<close>, and the two persisted files.
  \<open>encode_calls\<close> logs every call of \<open>model.encode\<close> with its argument.
\<close>

record service_state =
  model_loaded :: bool
  encode_calls :: "string list list"
  faiss_index :: "flat_index option"
  metadata :: metadata_map
  index_file :: "flat_index option"
  metadata_file :: "metadata_map option"

definition embedding_dim :: nat where
  "embedding_dim = 384"

definition initial_state :: service_state where
  "initial_state =
     \<lparr>model_loaded = False, encode_calls = [], faiss_index = None, metadata = Map.empty,
      index_file = None, metadata_file = None\<rparr>"

definition get_model :: "service_state \<Rightarrow> service_state" where
  "get_model st = st\<lparr>model_loaded := True\<rparr>"

definition get_faiss_index :: "service_state \<Rightarrow> flat_index \<times> service_state" where
  "get_faiss_index st =
     (case faiss_index st of
        Some ix \<Rightarrow> (ix, st)
      | None \<Rightarrow>
          (case index_file st of
             Some ix \<Rightarrow>
               (ix, st\<lparr>faiss_index := Some ix,
                       metadata := (case metadata_file st of Some m \<Rightarrow> m | None \<Rightarrow> metadata st)\<rparr>)
           | None \<Rightarrow>
               (IndexFlatL2 embedding_dim, st\<lparr>faiss_index := Some (IndexFlatL2 embedding_dim)\<rparr>)))"

definition save_faiss_index :: "service_state \<Rightarrow> service_state" where
  "save_faiss_index st =
     (case faiss_index st of
        None \<Rightarrow> st
      | Some ix \<Rightarrow> st\<lparr>index_file := Some ix, metadata_file := Some (metadata st)\<rparr>)"

section \<open>Responses\<close>

datatype exc = KeyError string | ValueError | AssertionError | TypeError

record search_hit =
  hit_transcript_id :: jval
  hit_video_id :: jval
  hit_similarity :: real

datatype body =
    ErrorBody string
  | ExcBody exc
  | HealthBody nat
  | EmbeddingsBody "(jval \<times> real list) list"
  | MessageBody string
  | IndexedBody string nat
  | ResultsBody "search_hit list"

type_synonym response = "nat \<times> body"

text \<open>The \<open>total_vectors\<close> field of a response body, when it has one.\<close>

fun total_vectors :: "body \<Rightarrow> nat option" where
  "total_vectors (IndexedBody msg n) = Some n"
| "total_vectors _ = None"

definition health :: "service_state \<Rightarrow> response \<times> service_state" where
  "health st = (let (ix, st1) = get_faiss_index st in ((200, HealthBody (ntotal ix)), st1))"

section \<open>POST /embed\<close>

record segment =
  seg_id :: "jval option"
  seg_text :: "string option"

record embed_request =
  segments :: "segment list option"

text \<open>
  The list comprehensions \<open>[seg["text"] ...]\<close> and \<open>[seg["id"] ...]\<close>: the first
  missing key raises \<open>KeyError\<close>.
\<close>

fun collect :: "('a \<Rightarrow> 'b option) \<Rightarrow> 'a list \<Rightarrow> 'b list option" where
  "collect f [] = Some []"
| "collect f (x # xs) =
     (case f x of None \<Rightarrow> None
      | Some y \<Rightarrow> (case collect f xs of None \<Rightarrow> None | Some ys \<Rightarrow> Some (y # ys)))"

definition embed ::
  "(string list \<Rightarrow> real list list) \<Rightarrow> service_state \<Rightarrow> embed_request \<Rightarrow> response \<times> service_state"
where
  "embed enc st data =
     (case segments data of
        None \<Rightarrow> ((400, ErrorBody ''segments is required''), st)
      | Some segs \<Rightarrow>
          if segs = [] then ((200, EmbeddingsBody []), st)
          else
            let st1 = get_model st in
            (case collect seg_text segs of
               None \<Rightarrow> ((500, ExcBody (KeyError ''text'')), st1)
             | Some texts \<Rightarrow>
                 (case collect seg_id segs of
                    None \<Rightarrow> ((500, ExcBody (KeyError ''id'')), st1)
                  | Some ids \<Rightarrow>
                      let embeddings = enc texts;
                          st2 = st1\<lparr>encode_calls := encode_calls st1 @ [texts]\<rparr>
                      in ((200, EmbeddingsBody (zip ids embeddings)), st2))))"

section \<open>POST /index\<close>

record emb_record =
  er_id :: "jval option"
  er_embedding :: "real list option"

record index_request =
  ir_video_id :: jval
  embeddings :: "emb_record list option"

text \<open>
  The loop over \<open>enumerate(embeddings_data)\<close>. It mutates the global dictionary in
  place, so the entries written before a \<open>KeyError\<close> on \<open>emb["id"]\<close> stay.
\<close>

fun update_metadata ::
  "nat \<Rightarrow> jval \<Rightarrow> emb_record list \<Rightarrow> metadata_map \<Rightarrow> exc option \<times> metadata_map"
where
  "update_metadata faiss_idx vid [] md = (None, md)"
| "update_metadata faiss_idx vid (emb # rest) md =
     (case er_id emb of
        None \<Rightarrow> (Some (KeyError ''id''), md)
      | Some t \<Rightarrow>
          update_metadata (Suc faiss_idx) vid rest
            (md(str_nat faiss_idx \<mapsto> \<lparr>transcript_id = t, video_id = vid\<rparr>)))"

text \<open>\<open>np.array(rows, dtype=np.float32)\<close> refuses rows of different lengths.\<close>

definition rectangular :: "real list list \<Rightarrow> bool" where
  "rectangular vs = (\<forall>v \<in> set vs. length v = length (hd vs))"

definition index_embeddings :: "service_state \<Rightarrow> index_request \<Rightarrow> response \<times> service_state" where
  "index_embeddings st data =
     (case embeddings data of
        None \<Rightarrow> ((400, ErrorBody ''embeddings is required''), st)
      | Some embeddings_data \<Rightarrow>
          if embeddings_data = [] then ((200, MessageBody ''No embeddings to index''), st)
          else
            let (index, st1) = get_faiss_index st in
            (case collect er_embedding embeddings_data of
               None \<Rightarrow> ((500, ExcBody (KeyError ''embedding'')), st1)
             | Some vectors \<Rightarrow>
                 if \<not> rectangular vectors then ((500, ExcBody ValueError), st1)
                 else if length (hd vectors) \<noteq> dim index then ((500, ExcBody AssertionError), st1)
                 else
                   let start_idx = ntotal index;
                       index' = flat_add index vectors;
                       st2 = st1\<lparr>faiss_index := Some index'\<rparr>;
                       (err, md) = update_metadata start_idx (ir_video_id data) embeddings_data (metadata st2);
                       st3 = st2\<lparr>metadata := md\<rparr>
                   in (case err of
                         Some e \<Rightarrow> ((500, ExcBody e), st3)
                       | None \<Rightarrow>
                           let st4 = save_faiss_index st3
                           in ((200, IndexedBody
                                  (''Indexed '' @ str_nat (length embeddings_data) @ '' vectors'')
                                  (ntotal index')), st4))))"

section \<open>POST /search\<close>

record search_request =
  query :: "string option"
  sr_video_id :: jval
  top_k :: "int option"

text \<open>\<open>similarity = 1 / (1 + dist)\<close>, reported as \<open>round(float(similarity), 4)\<close>.\<close>

definition similarity :: "real \<Rightarrow> real" where
  "similarity distance = 1 / (1 + distance)"

definition reported_similarity :: "real \<Rightarrow> real" where
  "reported_similarity distance = py_round (similarity distance) 4"

text \<open>The breadth handed to \<open>index.search\<close>.\<close>

definition search_k :: "jval \<Rightarrow> int \<Rightarrow> nat \<Rightarrow> int" where
  "search_k vid k n = (if truthy vid then min (k * 10) (int n) else min k (int n))"

text \<open>
  The loop over \<open>zip(distances[0], indices[0])\<close>, with \<open>results\<close> as accumulator;
  \<open>continue\<close> is the recursive call on the rest, \<open>break\<close> returns the accumulator.
\<close>

fun process_results ::
  "metadata_map \<Rightarrow> jval \<Rightarrow> int \<Rightarrow> search_hit list \<Rightarrow> (real \<times> int) list \<Rightarrow> search_hit list"
where
  "process_results md vid k results [] = results"
| "process_results md vid k results ((distance, idx) # rest) =
     (if idx = - 1 then process_results md vid k results rest
      else
        (case md (str_int idx) of
           None \<Rightarrow> process_results md vid k results rest
         | Some meta \<Rightarrow>
             if truthy vid \<and> \<not> py_eq (video_id meta) vid
             then process_results md vid k results rest
             else
               let results' =
                     results @ [\<lparr>hit_transcript_id = transcript_id meta,
                                 hit_video_id = video_id meta,
                                 hit_similarity = reported_similarity distance\<rparr>]
               in if k \<le> int (length results') then results'
                  else process_results md vid k results' rest))"

definition search ::
  "(string list \<Rightarrow> real list list) \<Rightarrow> service_state \<Rightarrow> search_request \<Rightarrow> response \<times> service_state"
where
  "search enc st data =
     (case query data of
        None \<Rightarrow> ((400, ErrorBody ''query is required''), st)
      | Some q \<Rightarrow>
          let vid = sr_video_id data;
              k = (case top_k data of None \<Rightarrow> 10 | Some n \<Rightarrow> n);
              st1 = get_model st;
              (index, st2) = get_faiss_index st1
          in if ntotal index = 0 then ((200, ResultsBody []), st2)
             else
               let query_embedding = enc [q];
                   st3 = st2\<lparr>encode_calls := encode_calls st2 @ [[q]]\<rparr>;
                   sk = search_k vid k (ntotal index)
               in (case query_embedding of
                     [] \<Rightarrow> ((500, ExcBody ValueError), st3)
                   | query_vector # _ \<Rightarrow>
                       if length query_vector \<noteq> dim index \<or> sk \<le> 0
                       then ((500, ExcBody AssertionError), st3)
                       else
                         ((200, ResultsBody
                             (process_results (metadata st3) vid k []
                                (flat_search index query_vector (nat sk)))), st3)))"

section \<open>POST /clear\<close>

definition clear_index :: "service_state \<Rightarrow> response \<times> service_state" where
  "clear_index st =
     (let st1 = st\<lparr>faiss_index := Some (IndexFlatL2 embedding_dim), metadata := Map.empty\<rparr>;
          st2 = save_faiss_index st1
      in ((200, MessageBody ''Index cleared''), st2))"

section \<open>The service as a transition system\<close>

text \<open>
  One request per step. \<open>Restart\<close> ends the process and starts a new one: the
  globals are reset, the persisted files stay.
\<close>

datatype request =
    Health
  | Embed embed_request
  | Index index_request
  | Search search_request
  | Clear
  | Restart

definition restart :: "service_state \<Rightarrow> service_state" where
  "restart st = st\<lparr>model_loaded := False, faiss_index := None, metadata := Map.empty\<rparr>"

fun step ::
  "(string list \<Rightarrow> real list list) \<Rightarrow> service_state \<Rightarrow> request \<Rightarrow> service_state"
where
  "step enc st Health = snd (health st)"
| "step enc st (Embed r) = snd (embed enc st r)"
| "step enc st (Index r) = snd (index_embeddings st r)"
| "step enc st (Search r) = snd (search enc st r)"
| "step enc st Clear = snd (clear_index st)"
| "step enc st Restart = restart st"

definition run ::
  "(string list \<Rightarrow> real list list) \<Rightarrow> service_state \<Rightarrow> request list \<Rightarrow> service_state"
where
  "run enc st rs = foldl (step enc) st rs"

section \<open>The transcription service\<close>

record whisper_state =
  whisper_loaded :: bool
  transcribe_calls :: "(string \<times> string option) list"

record raw_segment =
  raw_start :: real
  raw_end :: real
  raw_text :: string
  avg_logprob :: "real option"

record whisper_result =
  res_segments :: "raw_segment list"
  res_language :: "string option"

record transcript_segment =
  ts_start :: real
  ts_end :: real
  ts_text :: string
  ts_confidence :: "real option"

record transcribe_request =
  audio_path :: "string option"
  language :: "string option"

datatype transcribe_body =
    TErrorBody string
  | TranscriptBody "transcript_segment list" string real

definition is_space :: "char \<Rightarrow> bool" where
  "is_space c = (c \<in> set [CHR '' '', CHR 0x09, CHR 0x0A, CHR 0x0B, CHR 0x0C, CHR 0x0D])"

definition strip :: "string \<Rightarrow> string" where
  "strip s = rev (dropWhile is_space (rev (dropWhile is_space s)))"

definition format_segment :: "raw_segment \<Rightarrow> transcript_segment" where
  "format_segment seg =
     \<lparr>ts_start = py_round (raw_start seg) 2,
      ts_end = py_round (raw_end seg) 2,
      ts_text = strip (raw_text seg),
      ts_confidence = (case avg_logprob seg of None \<Rightarrow> None | Some p \<Rightarrow> Some (py_round (p * - 1) 3))\<rparr>"

text \<open>
  \<open>exists\<close> is \<open>os.path.exists\<close> on the host's file system and \<open>model_run\<close> the
  speech model's \<open>transcribe\<close>; both are collaborators outside the repository.
\<close>

definition transcribe ::
  "(string \<Rightarrow> bool) \<Rightarrow> (string \<Rightarrow> string option \<Rightarrow> whisper_result) \<Rightarrow> whisper_state
     \<Rightarrow> transcribe_request \<Rightarrow> (nat \<times> transcribe_body) \<times> whisper_state"
where
  "transcribe exists model_run st data =
     (case audio_path data of
        None \<Rightarrow> ((400, TErrorBody ''audio_path is required''), st)
      | Some path \<Rightarrow>
          if \<not> exists path then ((404, TErrorBody (''Audio file not found: '' @ path)), st)
          else
            let st1 = st\<lparr>whisper_loaded := True\<rparr>;
                result = model_run path (language data);
                st2 = st1\<lparr>transcribe_calls := transcribe_calls st1 @ [(path, language data)]\<rparr>;
                segs = map format_segment (res_segments result)
            in ((200, TranscriptBody segs
                   (case res_language result of None \<Rightarrow> ''unknown'' | Some l \<Rightarrow> l)
                   (if segs = [] then 0 else ts_end (last segs))), st2))"

section \<open>Vocabulary of the properties\<close>

text \<open>
  The contract of the embedding model's \<open>encode\<close>, a collaborator outside the
  repository: one vector per input text, each of the model's dimension.
\<close>

definition sentence_encoder :: "(string list \<Rightarrow> real list list) \<Rightarrow> nat \<Rightarrow> bool" where
  "sentence_encoder enc n =
     (\<forall>texts. length (enc texts) = length texts \<and> (\<forall>v \<in> set (enc texts). length v = n))"

text \<open>Requests that reach the indexing handler.\<close>

fun is_index :: "request \<Rightarrow> bool" where
  "is_index (Index r) = True"
| "is_index _ = False"

text \<open>Neither the index in memory nor the persisted one holds a vector.\<close>

definition index_is_empty :: "service_state \<Rightarrow> bool" where
  "index_is_empty st =
     ((case faiss_index st of None \<Rightarrow> True | Some ix \<Rightarrow> ntotal ix = 0)
      \<and> (case index_file st of None \<Rightarrow> True | Some ix \<Rightarrow> ntotal ix = 0))"

text \<open>
  The search results as the specification words them: every candidate of the index
  search that survives the checks (a real position, a metadata entry, the video filter)
  becomes a hit, in the order of the candidates.
\<close>

fun to_hit :: "metadata_map \<Rightarrow> jval \<Rightarrow> real \<times> int \<Rightarrow> search_hit option" where
  "to_hit md vid (distance, idx) =
     (if idx = - 1 then None
      else
        (case md (str_int idx) of
           None \<Rightarrow> None
         | Some meta \<Rightarrow>
             if truthy vid \<and> \<not> py_eq (video_id meta) vid then None
             else Some \<lparr>hit_transcript_id = transcript_id meta,
                        hit_video_id = video_id meta,
                        hit_similarity = reported_similarity distance\<rparr>))"

fun survivors :: "metadata_map \<Rightarrow> jval \<Rightarrow> (real \<times> int) list \<Rightarrow> search_hit list" where
  "survivors md vid [] = []"
| "survivors md vid (x # xs) =
     (case to_hit md vid x of
        None \<Rightarrow> survivors md vid xs
      | Some h \<Rightarrow> h # survivors md vid xs)"

text \<open>
  Requests whose embedding records all carry an \<open>id\<close>, as the data model has them. (A
  record without \<open>id\<close> makes the metadata loop raise after the vectors were added.)
\<close>

fun well_formed :: "request \<Rightarrow> bool" where
  "well_formed (Index r) =
     (case embeddings r of None \<Rightarrow> True | Some es \<Rightarrow> \<forall>e \<in> set es. er_id e \<noteq> None)"
| "well_formed _ = True"

text \<open>The vectors of the index in memory, their number, and the number of metadata entries.\<close>

definition vectors :: "service_state \<Rightarrow> real list list" where
  "vectors st = (case faiss_index st of None \<Rightarrow> [] | Some ix \<Rightarrow> xb ix)"

definition vector_count :: "service_state \<Rightarrow> nat" where
  "vector_count st = length (vectors st)"

definition entry_count :: "service_state \<Rightarrow> nat" where
  "entry_count st = card (dom (metadata st))"

text \<open>
  The metadata keys are exactly the positions of the index; \<open>consistent\<close> asks this of
  the globals and of the persisted pair of files.
\<close>

definition aligned :: "flat_index \<Rightarrow> metadata_map \<Rightarrow> bool" where
  "aligned ix md = (dom md = str_nat ` {..<ntotal ix})"

definition consistent :: "service_state \<Rightarrow> bool" where
  "consistent st =
     ((case faiss_index st of None \<Rightarrow> metadata st = Map.empty | Some ix \<Rightarrow> aligned ix (metadata st))
      \<and> (case index_file st of
           None \<Rightarrow> True
         | Some ix \<Rightarrow> (case metadata_file st of None \<Rightarrow> False | Some m \<Rightarrow> aligned ix m)))"

text \<open>
  The later state keeps every vector of the earlier one at its position, with its
  metadata entry.
\<close>

definition extends :: "service_state \<Rightarrow> service_state \<Rightarrow> bool" where
  "extends st st' =
     (vector_count st \<le> vector_count st'
      \<and> take (vector_count st) (vectors st') = vectors st
      \<and> (\<forall>p < vector_count st. metadata st' (str_nat p) = metadata st (str_nat p)))"

section \<open>Decimal rendering is injective\<close>

lemma digit_val_digit_char: "k < 10 \<Longrightarrow> digit_val (digit_char k) = k"
proof -
  assume "k < 10"
  then have "k \<in> {0, 1, 2, 3, 4, 5, 6, 7, 8, 9}" by auto
  then show ?thesis
    by (auto simp: digit_val_def digit_char_def)
qed

lemma nat_of_str_snoc: "nat_of_str (s @ [c]) = 10 * nat_of_str s + digit_val c"
  by (simp add: nat_of_str_def)

lemma nat_of_str_str_nat: "nat_of_str (str_nat n) = n"
proof (induction n rule: str_nat.induct)
  case (1 n)
  show ?case
  proof (cases "n < 10")
    case True
    then show ?thesis
      by (subst str_nat.simps) (simp add: nat_of_str_def digit_val_digit_char)
  next
    case False
    then have "nat_of_str (str_nat n) = 10 * nat_of_str (str_nat (n div 10)) + digit_val (digit_char (n mod 10))"
      by (subst str_nat.simps) (simp add: nat_of_str_snoc)
    also have "\<dots> = 10 * (n div 10) + n mod 10"
      using False "1.IH" by (simp add: digit_val_digit_char)
    finally show ?thesis by simp
  qed
qed

lemma inj_str_nat: "inj str_nat"
  by (rule inj_on_inverseI [where g = nat_of_str]) (rule nat_of_str_str_nat)

lemma str_nat_eq_iff: "str_nat m = str_nat n \<longleftrightarrow> m = n"
  using inj_str_nat by (auto dest: injD)

lemma str_int_nat: "str_int (int n) = str_nat n"
  by (simp add: str_int_def)

lemma str_nat_small: "n < 10 \<Longrightarrow> str_nat n = [digit_char n]"
  by (simp add: str_nat.simps)

section \<open>Auxiliary facts about the handlers\<close>

lemma collect_Some_iff: "(\<exists>ys. collect f xs = Some ys) \<longleftrightarrow> (\<forall>x \<in> set xs. f x \<noteq> None)"
  by (induction xs) (auto split: option.splits)

lemma collect_all_present:
  "\<forall>x \<in> set xs. f x \<noteq> None \<Longrightarrow> collect f xs = Some (map (\<lambda>x. the (f x)) xs)"
  by (induction xs) auto

lemma update_metadata_other:
  "k \<notin> str_nat ` {s..<s + length es} \<Longrightarrow> snd (update_metadata s vid es md) k = md k"
proof (induction es arbitrary: s md)
  case Nil
  then show ?case by simp
next
  case (Cons e es)
  have k_s: "k \<noteq> str_nat s" using Cons.prems by auto
  have "k \<notin> str_nat ` {Suc s..<Suc s + length es}" using Cons.prems by auto
  from Cons.IH [OF this] k_s show ?case
    by (simp split: option.splits)
qed

lemma update_metadata_no_error:
  "\<forall>e \<in> set es. er_id e \<noteq> None \<Longrightarrow> fst (update_metadata s vid es md) = None"
  by (induction es arbitrary: s md) auto


lemma update_metadata_dom:
  "\<forall>e \<in> set es. er_id e \<noteq> None \<Longrightarrow>
   dom (snd (update_metadata s vid es md)) = dom md \<union> str_nat ` {s..<s + length es}"
proof (induction es arbitrary: s md)
  case Nil
  then show ?case by simp
next
  case (Cons e es)
  from Cons.prems obtain t where t: "er_id e = Some t" by auto
  have rest: "\<forall>e \<in> set es. er_id e \<noteq> None" using Cons.prems by simp
  have split: "{s..<s + length (e # es)} = insert s {Suc s..<Suc s + length es}" by auto
  show ?case
    unfolding split using Cons.IH [OF rest, of "Suc s"] t by auto
qed

lemma get_faiss_index_Some: "faiss_index (snd (get_faiss_index st)) = Some (fst (get_faiss_index st))"
  by (simp add: get_faiss_index_def split: option.splits)

lemma get_faiss_index_pair: "get_faiss_index st = (fst (get_faiss_index st), snd (get_faiss_index st))"
  by simp

section \<open>Indexing a batch\<close>



text \<open>
  On an empty embeddings list the handler returns early with the body
  \<open>{"message": "No embeddings to index"}\<close>: the response has no \<open>total_vectors\<close> field.
\<close>

theorem index_empty_no_total_counterexample:
  "total_vectors (snd (fst (index_embeddings initial_state \<lparr>ir_video_id = JNull, embeddings = Some []\<rparr>))) = None"
  by (simp add: index_embeddings_def)

text \<open>
  C7 (amended). A \<open>/index\<close> request whose embeddings list is present and empty changes
  nothing (globals and persisted files stay as they are) and returns HTTP 200 with the
  message "No embeddings to index", without a total; and the handler answers HTTP 400
  exactly when the embeddings key is absent.
\<close>

theorem index_empty_noop_and_bad_request:
  "(embeddings data = Some [] \<longrightarrow>
      index_embeddings st data = ((200, MessageBody ''No embeddings to index''), st))
   \<and> (fst (fst (index_embeddings st data)) = 400 \<longleftrightarrow> embeddings data = None)"
  by (auto simp: index_embeddings_def Let_def split: option.splits prod.splits)

theorem index_empty_noop_and_bad_request_witness:
  "index_embeddings initial_state \<lparr>ir_video_id = JInt 7, embeddings = Some []\<rparr>
     = ((200, MessageBody ''No embeddings to index''), initial_state)
   \<and> fst (fst (index_embeddings initial_state \<lparr>ir_video_id = JInt 7, embeddings = None\<rparr>)) = 400"
  using index_empty_noop_and_bad_request [of "\<lparr>ir_video_id = JInt 7, embeddings = Some []\<rparr>" initial_state]
    index_empty_noop_and_bad_request [of "\<lparr>ir_video_id = JInt 7, embeddings = None\<rparr>" initial_state]
  by simp

section \<open>Transcription requests that are refused\<close>

text \<open>
  C8. A \<open>/transcribe\<close> request without \<open>audio_path\<close> is answered with HTTP 400 and an
  error body; one whose \<open>audio_path\<close> names no existing file is answered with HTTP 404
  and an error body. In both cases the state is returned unchanged: the speech model
  is neither loaded nor run.
\<close>

theorem transcribe_rejects:
  "(audio_path data = None \<longrightarrow>
      transcribe exists model_run st data = ((400, TErrorBody ''audio_path is required''), st))
   \<and> (audio_path data = Some p \<and> \<not> exists p \<longrightarrow>
      transcribe exists model_run st data = ((404, TErrorBody (''Audio file not found: '' @ p)), st))"
  by (simp add: transcribe_def)

theorem transcribe_rejects_witness:
  "transcribe (\<lambda>p. p = ''/data/a.wav'') (\<lambda>p l. \<lparr>res_segments = [], res_language = None\<rparr>) \<lparr>whisper_loaded = False, transcribe_calls = []\<rparr>
      \<lparr>audio_path = None, language = None\<rparr>
     = ((400, TErrorBody ''audio_path is required''), \<lparr>whisper_loaded = False, transcribe_calls = []\<rparr>)
   \<and> transcribe (\<lambda>p. p = ''/data/a.wav'') (\<lambda>p l. \<lparr>res_segments = [], res_language = None\<rparr>) \<lparr>whisper_loaded = False, transcribe_calls = []\<rparr>
      \<lparr>audio_path = Some ''/b.wav'', language = None\<rparr>
     = ((404, TErrorBody ''Audio file not found: /b.wav''), \<lparr>whisper_loaded = False, transcribe_calls = []\<rparr>)"
  using transcribe_rejects [of "\<lparr>audio_path = None, language = None\<rparr>" "\<lambda>p. p = ''/data/a.wav''" "\<lambda>p l. \<lparr>res_segments = [], res_language = None\<rparr>"
      "\<lparr>whisper_loaded = False, transcribe_calls = []\<rparr>" "''/b.wav''"]
    transcribe_rejects [of "\<lparr>audio_path = Some ''/b.wav'', language = None\<rparr>" "\<lambda>p. p = ''/data/a.wav''" "\<lambda>p l. \<lparr>res_segments = [], res_language = None\<rparr>"
      "\<lparr>whisper_loaded = False, transcribe_calls = []\<rparr>" "''/b.wav''"]
  by simp

section \<open>Embedding a list of segments\<close>

text \<open>
  C2. For a non-empty list of segments that each carry an \<open>id\<close> and a \<open>text\<close>, and an
  embedding model that returns one 384-dimensional vector per text, \<open>/embed\<close> answers
  HTTP 200 with exactly one embedding per segment, in input order, each with the
  caller's \<open>id\<close> of its segment unchanged and the model's vector for its text, of
  length 384.
\<close>

theorem embed_one_per_segment:
  assumes segs: "segments data = Some segs" and ne: "segs \<noteq> []"
    and valid: "\<forall>s \<in> set segs. seg_id s \<noteq> None \<and> seg_text s \<noteq> None"
    and enc: "sentence_encoder enc 384"
  shows "\<exists>out. fst (embed enc st data) = (200, EmbeddingsBody out)
           \<and> length out = length segs
           \<and> map (\<lambda>p. Some (fst p)) out = map seg_id segs
           \<and> map snd out = enc (map (\<lambda>s. the (seg_text s)) segs)
           \<and> (\<forall>p \<in> set out. length (snd p) = 384)"
proof -
  define texts where "texts = map (\<lambda>s. the (seg_text s)) segs"
  define ids where "ids = map (\<lambda>s. the (seg_id s)) segs"
  have ct: "collect seg_text segs = Some texts"
    unfolding texts_def using valid by (intro collect_all_present) auto
  have ci: "collect seg_id segs = Some ids"
    unfolding ids_def using valid by (intro collect_all_present) auto
  have len: "length (enc texts) = length ids"
    using enc by (simp add: sentence_encoder_def texts_def ids_def)
  have dims: "\<forall>v \<in> set (enc texts). length v = 384"
    using enc by (simp add: sentence_encoder_def)
  have res: "fst (embed enc st data) = (200, EmbeddingsBody (zip ids (enc texts)))"
    by (simp add: embed_def segs ne ct ci Let_def)
  have idmap: "map (\<lambda>p. Some (fst p)) (zip ids (enc texts)) = map seg_id segs"
  proof -
    have "map (\<lambda>p. Some (fst p)) (zip ids (enc texts)) = map Some (map fst (zip ids (enc texts)))"
      by simp
    also have "\<dots> = map Some ids" using len by simp
    also have "\<dots> = map seg_id segs" using valid by (auto simp: ids_def)
    finally show ?thesis .
  qed
  have "length (zip ids (enc texts)) = length segs" using len by (simp add: ids_def)
  moreover have "map snd (zip ids (enc texts)) = enc texts" using len by simp
  moreover have "\<forall>p \<in> set (zip ids (enc texts)). length (snd p) = 384"
    using dims by (auto dest: set_zip_rightD)
  ultimately show ?thesis
    using res idmap by (auto simp: texts_def)
qed

theorem embed_one_per_segment_witness:
  "\<exists>out. fst (embed (map (\<lambda>t. replicate 384 0)) initial_state
                 \<lparr>segments = Some [\<lparr>seg_id = Some (JInt 1), seg_text = Some ''Hello world''\<rparr>,
                                    \<lparr>seg_id = Some (JInt 2), seg_text = Some ''Another segment''\<rparr>]\<rparr>)
            = (200, EmbeddingsBody out)
         \<and> length out = 2
         \<and> map (\<lambda>p. Some (fst p)) out = [Some (JInt 1), Some (JInt 2)]
         \<and> (\<forall>p \<in> set out. length (snd p) = 384)"
proof -
  let ?segs = "[\<lparr>seg_id = Some (JInt 1), seg_text = Some ''Hello world''\<rparr>,
                \<lparr>seg_id = Some (JInt 2), seg_text = Some ''Another segment''\<rparr>]"
  let ?data = "\<lparr>segments = Some ?segs\<rparr>"
  have h1: "segments ?data = Some ?segs" by simp
  have h2: "?segs \<noteq> []" by simp
  have h3: "\<forall>s \<in> set ?segs. seg_id s \<noteq> None \<and> seg_text s \<noteq> None" by simp
  have h4: "sentence_encoder (map (\<lambda>t. replicate 384 0)) 384"
    by (simp add: sentence_encoder_def)
  from embed_one_per_segment [OF h1 h2 h3 h4, of initial_state] show ?thesis
    by auto
qed

section \<open>Searching an empty index\<close>

text \<open>
  C6. A \<open>/search\<close> request with a query, made while the vector index (as
  \<open>get_faiss_index\<close> yields it) holds no vector, is answered with an empty result
  list, and \<open>encode\<close> of the embedding model is not called: the log of its calls is
  unchanged. (\<open>get_model\<close> runs before the test, so the model may get loaded.)
\<close>

theorem search_empty_index:
  assumes "query data = Some q" and "ntotal (fst (get_faiss_index st)) = 0"
  shows "fst (search enc st data) = (200, ResultsBody [])
       \<and> encode_calls (snd (search enc st data)) = encode_calls st"
proof -
  have g: "get_faiss_index (get_model st) =
      (fst (get_faiss_index st), get_model (snd (get_faiss_index st)))"
    by (simp add: get_faiss_index_def get_model_def split: option.splits)
  have e: "encode_calls (get_model (snd (get_faiss_index st))) = encode_calls st"
    by (simp add: get_faiss_index_def get_model_def split: option.splits)
  show ?thesis
    using assms e by (simp add: search_def g Let_def)
qed

theorem search_empty_index_witness:
  "fst (search (map (\<lambda>t. replicate 384 0)) initial_state
          \<lparr>query = Some ''hello'', sr_video_id = JInt 7, top_k = Some 5\<rparr>) = (200, ResultsBody [])
   \<and> encode_calls (snd (search (map (\<lambda>t. replicate 384 0)) initial_state
          \<lparr>query = Some ''hello'', sr_video_id = JInt 7, top_k = Some 5\<rparr>)) = []"
proof -
  let ?data = "\<lparr>query = Some ''hello'', sr_video_id = JInt 7, top_k = Some 5\<rparr>"
  have h1: "query ?data = Some ''hello''" by simp
  have h2: "ntotal (fst (get_faiss_index initial_state)) = 0"
    by (simp add: get_faiss_index_def initial_state_def IndexFlatL2_def ntotal_def)
  from search_empty_index [OF h1 h2, of "map (\<lambda>t. replicate 384 0)"] show ?thesis
    by (simp add: initial_state_def)
qed

section \<open>A falsy video identifier is no filter\<close>

lemma process_results_falsy:
  "\<not> truthy v \<Longrightarrow> process_results md v k acc xs = process_results md JNull k acc xs"
proof (induction xs arbitrary: acc)
  case Nil
  then show ?case by simp
next
  case (Cons x xs)
  obtain distance idx where x: "x = (distance, idx)" by (cases x)
  show ?case
    unfolding x using Cons by (simp add: Let_def split: option.splits)
qed

lemma search_k_falsy: "\<not> truthy v \<Longrightarrow> search_k v k n = min k (int n)"
  by (simp add: search_k_def)

text \<open>
  C10. A \<open>/search\<close> request whose \<open>video_id\<close> is present but falsy (integer 0, the
  empty string, \<open>false\<close>) gets the very response, and leaves the very state, of the
  same request without \<open>video_id\<close>; its search breadth is \<open>min(top_k, ntotal)\<close>.
\<close>

theorem search_falsy_video_id:
  assumes "\<not> truthy v"
  shows "search enc st (data\<lparr>sr_video_id := v\<rparr>) = search enc st (data\<lparr>sr_video_id := JNull\<rparr>)
       \<and> search_k v k n = min k (int n)"
proof -
  have k: "\<And>k n. search_k v k n = search_k JNull k n"
    using assms by (simp add: search_k_def)
  have p: "\<And>md k acc xs. process_results md v k acc xs = process_results md JNull k acc xs"
    using assms by (rule process_results_falsy)
  have "search enc st (data\<lparr>sr_video_id := v\<rparr>) = search enc st (data\<lparr>sr_video_id := JNull\<rparr>)"
  proof (cases "query data")
    case None
    then show ?thesis by (simp add: search_def)
  next
    case (Some q)
    obtain index st2 where g: "get_faiss_index (get_model st) = (index, st2)"
      by (cases "get_faiss_index (get_model st)")
    show ?thesis
      by (cases "enc [q]") (simp_all add: search_def Some g Let_def k p)
  qed
  then show ?thesis using assms by (simp add: search_k_def)
qed

theorem search_falsy_video_id_witness:
  "\<not> truthy (JInt 0)
   \<and> search (map (\<lambda>t. replicate 384 0)) initial_state
        (\<lparr>query = Some ''hello'', sr_video_id = JInt 7, top_k = Some 5\<rparr>\<lparr>sr_video_id := JInt 0\<rparr>)
     = search (map (\<lambda>t. replicate 384 0)) initial_state
        (\<lparr>query = Some ''hello'', sr_video_id = JInt 7, top_k = Some 5\<rparr>\<lparr>sr_video_id := JNull\<rparr>)
   \<and> search_k (JInt 0) 5 100 = 5"
proof -
  have h: "\<not> truthy (JInt 0)" by simp
  from search_falsy_video_id [OF h, of "map (\<lambda>t. replicate 384 0)" initial_state
      "\<lparr>query = Some ''hello'', sr_video_id = JInt 7, top_k = Some 5\<rparr>" 5 100]
  show ?thesis by simp
qed

section \<open>Searching after a clear\<close>

lemma index_is_empty_get_faiss_index:
  assumes "index_is_empty st"
  shows "ntotal (fst (get_faiss_index st)) = 0" and "index_is_empty (snd (get_faiss_index st))"
  using assms
  by (auto simp: index_is_empty_def get_faiss_index_def IndexFlatL2_def ntotal_def
        split: option.splits)

lemma index_is_empty_get_model: "index_is_empty (get_model st) = index_is_empty st"
  by (simp add: index_is_empty_def get_model_def)

lemma index_is_empty_clear: "index_is_empty (snd (clear_index st))"
  by (simp add: clear_index_def save_faiss_index_def index_is_empty_def IndexFlatL2_def ntotal_def)

lemma index_is_empty_restart: "index_is_empty st \<Longrightarrow> index_is_empty (restart st)"
  by (simp add: index_is_empty_def restart_def)

lemma index_is_empty_embed: "index_is_empty st \<Longrightarrow> index_is_empty (snd (embed enc st r))"
  by (simp add: embed_def index_is_empty_def get_model_def Let_def split: option.splits)

lemma search_on_empty:
  assumes "index_is_empty st"
  shows "index_is_empty (snd (search enc st r))"
    and "query r \<noteq> None \<Longrightarrow> fst (search enc st r) = (200, ResultsBody [])"
proof -
  have e: "index_is_empty (get_model st)"
    using assms by (simp add: index_is_empty_get_model)
  obtain index st2 where g: "get_faiss_index (get_model st) = (index, st2)"
    by (cases "get_faiss_index (get_model st)")
  from index_is_empty_get_faiss_index [OF e] g
  have n: "ntotal index = 0" and e2: "index_is_empty st2" by simp_all
  show "index_is_empty (snd (search enc st r))"
    using assms e2 n by (cases "query r") (simp_all add: search_def g Let_def)
  show "query r \<noteq> None \<Longrightarrow> fst (search enc st r) = (200, ResultsBody [])"
    using n by (cases "query r") (simp_all add: search_def g Let_def)
qed

lemma index_is_empty_step:
  assumes "index_is_empty st" and "\<not> is_index r"
  shows "index_is_empty (step enc st r)"
proof (cases r)
  case Health
  then show ?thesis
    using index_is_empty_get_faiss_index(2) [OF assms(1)]
    by (auto simp: health_def split: prod.splits)
next
  case (Embed x)
  then show ?thesis using assms(1) by (simp add: index_is_empty_embed)
next
  case (Index x)
  then show ?thesis using assms(2) by simp
next
  case (Search x)
  then show ?thesis using search_on_empty(1) [OF assms(1)] by simp
next
  case Clear
  then show ?thesis by (simp add: index_is_empty_clear)
next
  case Restart
  then show ?thesis using assms(1) by (simp add: index_is_empty_restart)
qed

lemma index_is_empty_run:
  "index_is_empty st \<Longrightarrow> \<forall>r \<in> set rs. \<not> is_index r \<Longrightarrow> index_is_empty (run enc st rs)"
  unfolding run_def
  by (induction rs arbitrary: st) (simp_all add: index_is_empty_step)

text \<open>
  C9. After \<open>/clear\<close>, and after any further requests among which none is an
  \<open>/index\<close> request (restarts of the process included), every \<open>/search\<close> request
  with a query, whatever its \<open>video_id\<close> and \<open>top_k\<close>, is answered with HTTP 200 and
  an empty result list.
\<close>

theorem search_after_clear:
  assumes "query data = Some q" and "\<forall>r \<in> set rs. \<not> is_index r"
  shows "fst (search enc (run enc (snd (clear_index st)) rs) data) = (200, ResultsBody [])"
proof -
  have "index_is_empty (run enc (snd (clear_index st)) rs)"
    using index_is_empty_clear assms(2) by (rule index_is_empty_run)
  from search_on_empty(2) [OF this] assms(1) show ?thesis by simp
qed

theorem search_after_clear_witness:
  "fst (search (map (\<lambda>t. replicate 384 0))
          (run (map (\<lambda>t. replicate 384 0))
             (snd (clear_index initial_state))
             [Health, Restart, Search \<lparr>query = Some ''a'', sr_video_id = JNull, top_k = None\<rparr>])
          \<lparr>query = Some ''hello'', sr_video_id = JInt 7, top_k = Some 5\<rparr>) = (200, ResultsBody [])"
proof -
  let ?data = "\<lparr>query = Some ''hello'', sr_video_id = JInt 7, top_k = Some 5\<rparr>"
  let ?rs = "[Health, Restart, Search \<lparr>query = Some ''a'', sr_video_id = JNull, top_k = None\<rparr>]"
  have h1: "query ?data = Some ''hello''" by simp
  have h2: "\<forall>r \<in> set ?rs. \<not> is_index r" by simp
  from search_after_clear [OF h1 h2] show ?thesis .
qed

section \<open>Search breadth and truncation\<close>

lemma process_results_Cons:
  "process_results md vid k acc (x # xs) =
     (case to_hit md vid x of
        None \<Rightarrow> process_results md vid k acc xs
      | Some h \<Rightarrow>
          if k \<le> int (length (acc @ [h])) then acc @ [h]
          else process_results md vid k (acc @ [h]) xs)"
  by (cases x) (auto simp: Let_def split: option.split)

lemma process_results_take:
  "0 < k \<Longrightarrow> int (length acc) < k \<Longrightarrow>
   process_results md vid k acc xs = take (nat k) (acc @ survivors md vid xs)"
proof (induction xs arbitrary: acc)
  case Nil
  then show ?case by simp
next
  case (Cons x xs)
  show ?case
  proof (cases "to_hit md vid x")
    case None
    with Cons show ?thesis by (simp add: process_results_Cons del: process_results.simps)
  next
    case (Some h)
    show ?thesis
    proof (cases "k \<le> int (length (acc @ [h]))")
      case True
      with Cons.prems have "nat k = length (acc @ [h])" by simp
      then have "take (nat k) ((acc @ [h]) @ survivors md vid xs) = acc @ [h]"
        by (metis append_eq_conv_conj)
      with True Some show ?thesis
        by (simp add: process_results_Cons del: process_results.simps)
    next
      case False
      then have "int (length (acc @ [h])) < k" by simp
      from Cons.IH [OF Cons.prems(1) this] False Some show ?thesis
        by (simp add: process_results_Cons del: process_results.simps)
    qed
  qed
qed

lemma l2sq_replicate: "l2sq (replicate n a) (replicate n b) = real n * (a - b)\<^sup>2"
  by (induction n) (simp_all add: l2sq_def algebra_simps)

text \<open>
  C4. For a \<open>/search\<close> request with a query and a positive \<open>top_k\<close> (10 when absent) on
  a non-empty index, the breadth handed to the index search is
  \<open>min(top_k * 10, ntotal)\<close> when a video filter is in force (the \<open>video_id\<close> is truthy)
  and \<open>min(top_k, ntotal)\<close> otherwise, and it is positive; the response lists the
  candidates that survive the filter, cut to the first \<open>top_k\<close>, so it has at most
  \<open>top_k\<close> entries and fewer when fewer survive.
\<close>

theorem search_breadth_and_truncation:
  assumes q: "query data = Some q"
    and k: "k = (case top_k data of None \<Rightarrow> 10 | Some n \<Rightarrow> n)" and pos: "0 < k"
    and g: "get_faiss_index (get_model st) = (index, st2)" and n: "ntotal index \<noteq> 0"
    and e: "enc [q] = query_vector # others" and d: "length query_vector = dim index"
    and b: "breadth = (if truthy (sr_video_id data) then min (k * 10) (int (ntotal index))
                       else min k (int (ntotal index)))"
  shows "fst (search enc st data) =
           (200, ResultsBody (take (nat k)
              (survivors (metadata st2) (sr_video_id data)
                 (flat_search index query_vector (nat breadth)))))
       \<and> int (length (take (nat k)
              (survivors (metadata st2) (sr_video_id data)
                 (flat_search index query_vector (nat breadth))))) \<le> k
       \<and> 0 < breadth"
proof -
  have bpos: "0 < breadth" using b pos n by (simp add: min_def)
  have sk: "search_k (sr_video_id data) k (ntotal index) = breadth"
    by (simp add: search_k_def b)
  have pr: "\<And>md xs. process_results md (sr_video_id data) k [] xs =
      take (nat k) (survivors md (sr_video_id data) xs)"
    using process_results_take [OF pos, of "[]"] pos by simp
  have "fst (search enc st data) =
      (200, ResultsBody (take (nat k)
         (survivors (metadata st2) (sr_video_id data)
            (flat_search index query_vector (nat breadth)))))"
    using n bpos d by (simp add: search_def q k [symmetric] g e sk pr Let_def)
  moreover have "int (length (take (nat k)
      (survivors (metadata st2) (sr_video_id data)
         (flat_search index query_vector (nat breadth))))) \<le> k"
    using pos by simp
  ultimately show ?thesis using bpos by simp
qed

theorem search_breadth_and_truncation_witness:
  "fst (search (map (\<lambda>t. replicate 384 0))
          \<lparr>model_loaded = True, encode_calls = [],
           faiss_index = Some \<lparr>dim = 384, xb = [replicate 384 0, replicate 384 1]\<rparr>,
           metadata = [''0'' \<mapsto> \<lparr>transcript_id = JInt 1, video_id = JInt 7\<rparr>,
                       ''1'' \<mapsto> \<lparr>transcript_id = JInt 2, video_id = JInt 8\<rparr>],
           index_file = None, metadata_file = None\<rparr>
          \<lparr>query = Some ''hello'', sr_video_id = JInt 7, top_k = Some 2\<rparr>)
     = (200, ResultsBody [\<lparr>hit_transcript_id = JInt 1, hit_video_id = JInt 7, hit_similarity = 1\<rparr>])"
proof -
  let ?enc = "map (\<lambda>t. replicate 384 0) :: string list \<Rightarrow> real list list"
  let ?ix = "\<lparr>dim = 384, xb = [replicate 384 0, replicate 384 1]\<rparr>"
  let ?md = "[''0'' \<mapsto> \<lparr>transcript_id = JInt 1, video_id = JInt 7\<rparr>,
              ''1'' \<mapsto> \<lparr>transcript_id = JInt 2, video_id = JInt 8\<rparr>]"
  let ?st = "\<lparr>model_loaded = True, encode_calls = [], faiss_index = Some ?ix,
              metadata = ?md, index_file = None, metadata_file = None\<rparr>"
  let ?data = "\<lparr>query = Some ''hello'', sr_video_id = JInt 7, top_k = Some 2\<rparr>"
  have q: "query ?data = Some ''hello''" by simp
  have k: "(2::int) = (case top_k ?data of None \<Rightarrow> 10 | Some n \<Rightarrow> n)" by simp
  have pos: "(0::int) < 2" by simp
  have g: "get_faiss_index (get_model ?st) = (?ix, ?st)"
    by (simp add: get_faiss_index_def get_model_def)
  have n: "ntotal ?ix \<noteq> 0" by (simp add: ntotal_def)
  have e: "?enc [''hello''] = replicate 384 0 # []" by simp
  have d: "length (replicate 384 (0::real)) = dim ?ix" by simp
  have b: "(2::int) = (if truthy (sr_video_id ?data) then min (2 * 10) (int (ntotal ?ix))
                       else min 2 (int (ntotal ?ix)))"
    by (simp add: ntotal_def)
  have fs: "flat_search ?ix (replicate 384 0) 2 = [(0, 0), (384, 1)]"
    by (simp add: flat_search_def ntotal_def l2sq_replicate upt_rec)
  have s1: "reported_similarity 0 = 1"
    by (simp add: reported_similarity_def similarity_def py_round_def round_half_even_def)
  from search_breadth_and_truncation
    [where enc = "?enc" and st = "?st" and data = "?data" and q = "''hello''" and k = 2
       and index = "?ix" and ?st2.0 = "?st" and query_vector = "replicate 384 0"
       and others = "[]" and breadth = 2, OF q k pos g n e d b, THEN conjunct1]
  show ?thesis
    by (simp add: fs str_int_def str_nat_small digit_char_def s1)
qed

section \<open>Similarity scores\<close>





















section \<open>Metadata entries and vectors\<close>

lemma consistent_initial: "consistent initial_state"
  by (simp add: consistent_def initial_state_def)

lemma consistent_counts: "consistent st \<Longrightarrow> dom (metadata st) = str_nat ` {..<vector_count st}"
  by (auto simp: consistent_def aligned_def vector_count_def vectors_def ntotal_def
        split: option.splits)

lemma card_str_nat: "card (str_nat ` {..<n}) = n"
  using inj_str_nat by (simp add: card_image inj_on_def)

lemma consistent_get_model: "consistent (get_model st) = consistent st"
  by (simp add: consistent_def get_model_def split: option.split)

lemma consistent_get_faiss_index: "consistent st \<Longrightarrow> consistent (snd (get_faiss_index st))"
  by (auto simp: consistent_def get_faiss_index_def aligned_def IndexFlatL2_def ntotal_def
        split: option.splits)

lemma consistent_clear: "consistent (snd (clear_index st))"
  by (simp add: consistent_def clear_index_def save_faiss_index_def aligned_def IndexFlatL2_def
        ntotal_def)

lemma consistent_restart: "consistent st \<Longrightarrow> consistent (restart st)"
  by (simp add: consistent_def restart_def split: option.splits)

lemma consistent_embed: "consistent st \<Longrightarrow> consistent (snd (embed enc st r))"
  by (simp add: embed_def consistent_def get_model_def Let_def split: option.splits)

lemma search_state:
  "snd (search enc st r) = st
   \<or> snd (search enc st r) = snd (get_faiss_index (get_model st))
   \<or> snd (search enc st r) =
        (snd (get_faiss_index (get_model st)))
          \<lparr>encode_calls := encode_calls (snd (get_faiss_index (get_model st))) @ [[the (query r)]]\<rparr>"
proof (cases "query r")
  case None
  then show ?thesis by (simp add: search_def)
next
  case (Some q)
  obtain index st2 where g: "get_faiss_index (get_model st) = (index, st2)"
    by (cases "get_faiss_index (get_model st)")
  show ?thesis
    by (cases "enc [q]") (simp_all add: search_def Some g Let_def)
qed

lemma consistent_encode_calls: "consistent (st\<lparr>encode_calls := c\<rparr>) = consistent st"
  by (simp add: consistent_def split: option.split)

lemma consistent_search: "consistent st \<Longrightarrow> consistent (snd (search enc st r))"
  using search_state [of enc st r] consistent_get_faiss_index [of "get_model st"]
  by (auto simp: consistent_get_model consistent_encode_calls)

lemma collect_length: "collect f xs = Some ys \<Longrightarrow> length ys = length xs"
  by (induction xs arbitrary: ys) (auto split: option.splits)

lemma index_embeddings_state:
  assumes es: "embeddings data = Some es" and ne: "es \<noteq> []"
    and g: "get_faiss_index st = (index, st1)"
  shows "snd (index_embeddings st data) = st1
       \<or> (\<exists>vs. length vs = length es
             \<and> (snd (index_embeddings st data) =
                   st1\<lparr>faiss_index := Some (flat_add index vs),
                       metadata := snd (update_metadata (ntotal index) (ir_video_id data) es (metadata st1))\<rparr>
                \<or> fst (update_metadata (ntotal index) (ir_video_id data) es (metadata st1)) = None
                  \<and> snd (index_embeddings st data) =
                      save_faiss_index
                        (st1\<lparr>faiss_index := Some (flat_add index vs),
                             metadata := snd (update_metadata (ntotal index) (ir_video_id data) es (metadata st1))\<rparr>)))"
proof (cases "collect er_embedding es")
  case None
  then show ?thesis by (simp add: index_embeddings_def es ne g)
next
  case (Some vs)
  have len: "length vs = length es" using Some by (rule collect_length)
  obtain err md where um: "update_metadata (ntotal index) (ir_video_id data) es (metadata st1) = (err, md)"
    by (cases "update_metadata (ntotal index) (ir_video_id data) es (metadata st1)")
  show ?thesis
  proof (cases "rectangular vs \<and> length (hd vs) = dim index")
    case False
    then show ?thesis by (auto simp: index_embeddings_def es ne g Some)
  next
    case True
    show ?thesis
    proof (cases err)
      case None
      with True have "snd (index_embeddings st data) =
          save_faiss_index (st1\<lparr>faiss_index := Some (flat_add index vs), metadata := md\<rparr>)"
        by (simp add: index_embeddings_def es ne g Some um Let_def)
      with len um None show ?thesis by auto
    next
      case (Some e)
      with True have "snd (index_embeddings st data) =
          st1\<lparr>faiss_index := Some (flat_add index vs), metadata := md\<rparr>"
        by (simp add: index_embeddings_def es ne g \<open>collect er_embedding es = Some vs\<close> um Let_def)
      with len um show ?thesis by auto
    qed
  qed
qed

lemma aligned_after_batch:
  assumes a: "aligned index md" and ids: "\<forall>e \<in> set es. er_id e \<noteq> None"
    and len: "length vs = length es"
  shows "aligned (flat_add index vs) (snd (update_metadata (ntotal index) vid es md))"
proof -
  have "{..<ntotal index + length es} = {..<ntotal index} \<union> {ntotal index..<ntotal index + length es}"
    by auto
  then have "str_nat ` {..<ntotal index + length es} =
      str_nat ` {..<ntotal index} \<union> str_nat ` {ntotal index..<ntotal index + length es}"
    by (simp add: image_Un)
  with a update_metadata_dom [OF ids, of "ntotal index" vid md] len show ?thesis
    by (simp add: aligned_def flat_add_def ntotal_def)
qed

lemma consistent_index:
  assumes c: "consistent st" and wf: "well_formed (Index data)"
  shows "consistent (snd (index_embeddings st data))"
proof (cases "embeddings data")
  case None
  then show ?thesis using c by (simp add: index_embeddings_def)
next
  case (Some es)
  show ?thesis
  proof (cases "es = []")
    case True
    then show ?thesis using c Some by (simp add: index_embeddings_def)
  next
    case False
    obtain index st1 where g: "get_faiss_index st = (index, st1)"
      by (cases "get_faiss_index st")
    have ids: "\<forall>e \<in> set es. er_id e \<noteq> None" using wf Some by simp
    have c1: "consistent st1" using consistent_get_faiss_index [OF c] g by simp
    have f1: "faiss_index st1 = Some index" using get_faiss_index_Some [of st] g by simp
    have a1: "aligned index (metadata st1)" using c1 f1 by (simp add: consistent_def)
    have noerr: "fst (update_metadata (ntotal index) (ir_video_id data) es (metadata st1)) = None"
      using ids by (rule update_metadata_no_error)
    from index_embeddings_state [OF Some False g]
    show ?thesis
    proof (elim disjE exE conjE)
      assume "snd (index_embeddings st data) = st1"
      with c1 show ?thesis by simp
    next
      fix vs
      assume len: "length vs = length es"
        and s: "snd (index_embeddings st data) =
          st1\<lparr>faiss_index := Some (flat_add index vs),
              metadata := snd (update_metadata (ntotal index) (ir_video_id data) es (metadata st1))\<rparr>"
      from aligned_after_batch [OF a1 ids len] c1 show ?thesis
        unfolding s by (simp add: consistent_def split: option.splits)
    next
      fix vs
      assume len: "length vs = length es"
        and s: "snd (index_embeddings st data) =
          save_faiss_index
            (st1\<lparr>faiss_index := Some (flat_add index vs),
                 metadata := snd (update_metadata (ntotal index) (ir_video_id data) es (metadata st1))\<rparr>)"
      from aligned_after_batch [OF a1 ids len] show ?thesis
        unfolding s by (simp add: consistent_def save_faiss_index_def)
    qed
  qed
qed

lemma consistent_step:
  assumes "consistent st" and "well_formed r"
  shows "consistent (step enc st r)"
proof (cases r)
  case Health
  then show ?thesis
    using consistent_get_faiss_index [OF assms(1)] by (auto simp: health_def split: prod.splits)
next
  case (Embed x)
  then show ?thesis using assms(1) by (simp add: consistent_embed)
next
  case (Index x)
  then show ?thesis using assms by (simp add: consistent_index)
next
  case (Search x)
  then show ?thesis using assms(1) by (simp add: consistent_search)
next
  case Clear
  then show ?thesis by (simp add: consistent_clear)
next
  case Restart
  then show ?thesis using assms(1) by (simp add: consistent_restart)
qed

lemma consistent_run:
  "consistent st \<Longrightarrow> \<forall>r \<in> set rs. well_formed r \<Longrightarrow> consistent (run enc st rs)"
  unfolding run_def
  by (induction rs arbitrary: st) (simp_all add: consistent_step)

lemma extends_refl: "extends st st"
  by (simp add: extends_def vector_count_def)

lemma extends_trans:
  assumes "extends a b" and "extends b c"
  shows "extends a c"
proof -
  have le: "vector_count a \<le> vector_count b" "vector_count b \<le> vector_count c"
    using assms by (simp_all add: extends_def)
  have "take (vector_count a) (vectors c) = take (vector_count a) (take (vector_count b) (vectors c))"
    using le by (simp add: min_def)
  also have "\<dots> = vectors a" using assms by (simp add: extends_def)
  finally show ?thesis using assms le by (auto simp: extends_def)
qed

lemma extends_same:
  "faiss_index st' = faiss_index st \<Longrightarrow> metadata st' = metadata st \<Longrightarrow> extends st st'"
  by (simp add: extends_def vector_count_def vectors_def)

lemma extends_get_model: "extends st (get_model st)"
  by (rule extends_same) (simp_all add: get_model_def)

lemma extends_get_faiss_index: "extends st (snd (get_faiss_index st))"
proof (cases "faiss_index st")
  case None
  then show ?thesis by (simp add: extends_def vector_count_def vectors_def)
next
  case (Some ix)
  then show ?thesis by (simp add: get_faiss_index_def extends_refl)
qed

lemma extends_embed: "extends st (snd (embed enc st r))"
  by (rule extends_same) (simp_all add: embed_def get_model_def Let_def split: option.splits)

lemma extends_search: "extends st (snd (search enc st r))"
proof -
  have a: "extends st (snd (get_faiss_index (get_model st)))"
    using extends_get_model extends_get_faiss_index by (rule extends_trans)
  have b: "extends (snd (get_faiss_index (get_model st)))
      ((snd (get_faiss_index (get_model st)))
          \<lparr>encode_calls := encode_calls (snd (get_faiss_index (get_model st))) @ [[the (query r)]]\<rparr>)"
    by (rule extends_same) simp_all
  from search_state [of enc st r] show ?thesis
    using a extends_trans [OF a b] by (auto simp: extends_refl)
qed

lemma extends_batch:
  assumes f: "faiss_index st1 = Some index"
  shows "extends st1
     (st1\<lparr>faiss_index := Some (flat_add index vs),
          metadata := snd (update_metadata (ntotal index) vid es (metadata st1))\<rparr>)"
proof -
  have "\<And>p. p < ntotal index \<Longrightarrow> str_nat p \<notin> str_nat ` {ntotal index..<ntotal index + length es}"
    by (auto simp: str_nat_eq_iff)
  then have "\<And>p. p < ntotal index \<Longrightarrow>
      snd (update_metadata (ntotal index) vid es (metadata st1)) (str_nat p) = metadata st1 (str_nat p)"
    by (rule update_metadata_other)
  then show ?thesis
    using f by (simp add: extends_def vector_count_def vectors_def flat_add_def ntotal_def)
qed

lemma extends_save: "extends st (save_faiss_index st)"
  by (rule extends_same) (simp_all add: save_faiss_index_def split: option.splits)

lemma extends_index: "extends st (snd (index_embeddings st data))"
proof (cases "embeddings data")
  case None
  then show ?thesis by (simp add: index_embeddings_def extends_refl)
next
  case (Some es)
  show ?thesis
  proof (cases "es = []")
    case True
    then show ?thesis using Some by (simp add: index_embeddings_def extends_refl)
  next
    case False
    obtain index st1 where g: "get_faiss_index st = (index, st1)"
      by (cases "get_faiss_index st")
    have e1: "extends st st1" using extends_get_faiss_index [of st] g by simp
    have f1: "faiss_index st1 = Some index" using get_faiss_index_Some [of st] g by simp
    from index_embeddings_state [OF Some False g]
    show ?thesis
    proof (elim disjE exE conjE)
      assume "snd (index_embeddings st data) = st1"
      with e1 show ?thesis by simp
    next
      fix vs
      assume s: "snd (index_embeddings st data) =
          st1\<lparr>faiss_index := Some (flat_add index vs),
              metadata := snd (update_metadata (ntotal index) (ir_video_id data) es (metadata st1))\<rparr>"
      show ?thesis unfolding s using e1 extends_batch [OF f1] by (rule extends_trans)
    next
      fix vs
      assume s: "snd (index_embeddings st data) =
          save_faiss_index
            (st1\<lparr>faiss_index := Some (flat_add index vs),
                 metadata := snd (update_metadata (ntotal index) (ir_video_id data) es (metadata st1))\<rparr>)"
      have "extends st1 (snd (index_embeddings st data))"
        unfolding s using extends_batch [OF f1] extends_save by (rule extends_trans)
      with e1 show ?thesis by (rule extends_trans)
    qed
  qed
qed

lemma extends_step:
  assumes "r \<noteq> Clear" and "r \<noteq> Restart"
  shows "extends st (step enc st r)"
proof (cases r)
  case Health
  then show ?thesis
    using extends_get_faiss_index [of st] by (auto simp: health_def split: prod.splits)
next
  case (Embed x)
  then show ?thesis by (simp add: extends_embed)
next
  case (Index x)
  then show ?thesis by (simp add: extends_index)
next
  case (Search x)
  then show ?thesis by (simp add: extends_search)
next
  case Clear
  then show ?thesis using assms by simp
next
  case Restart
  then show ?thesis using assms by simp
qed

lemma index_one_record:
  assumes "get_faiss_index st = (\<lparr>dim = 384, xb = vs\<rparr>, st1)"
  shows "snd (index_embeddings st
            \<lparr>ir_video_id = vid,
             embeddings = Some [\<lparr>er_id = Some t, er_embedding = Some (replicate 384 c)\<rparr>]\<rparr>) =
         save_faiss_index
           (st1\<lparr>faiss_index := Some \<lparr>dim = 384, xb = vs @ [replicate 384 c]\<rparr>,
                metadata := (metadata st1)(str_nat (length vs) \<mapsto> \<lparr>transcript_id = t, video_id = vid\<rparr>)\<rparr>)"
  using assms
  by (simp add: index_embeddings_def rectangular_def flat_add_def ntotal_def Let_def)

text \<open>
  Position 0 is used twice: after \<open>/clear\<close> the next indexed vector gets position 0
  again, and the metadata key \<open>"0"\<close> then names another vector.
\<close>

theorem position_reused_after_clear_counterexample:
  "metadata (run (map (\<lambda>t. replicate 384 0)) initial_state
       [Index \<lparr>ir_video_id = JNull,
               embeddings = Some [\<lparr>er_id = Some (JInt 1), er_embedding = Some (replicate 384 0)\<rparr>]\<rparr>]) ''0''
     = Some \<lparr>transcript_id = JInt 1, video_id = JNull\<rparr>
   \<and> vectors (run (map (\<lambda>t. replicate 384 0)) initial_state
       [Index \<lparr>ir_video_id = JNull,
               embeddings = Some [\<lparr>er_id = Some (JInt 1), er_embedding = Some (replicate 384 0)\<rparr>]\<rparr>])
     = [replicate 384 0]
   \<and> metadata (run (map (\<lambda>t. replicate 384 0)) initial_state
       [Index \<lparr>ir_video_id = JNull,
               embeddings = Some [\<lparr>er_id = Some (JInt 1), er_embedding = Some (replicate 384 0)\<rparr>]\<rparr>,
        Clear,
        Index \<lparr>ir_video_id = JNull,
               embeddings = Some [\<lparr>er_id = Some (JInt 2), er_embedding = Some (replicate 384 1)\<rparr>]\<rparr>]) ''0''
     = Some \<lparr>transcript_id = JInt 2, video_id = JNull\<rparr>
   \<and> vectors (run (map (\<lambda>t. replicate 384 0)) initial_state
       [Index \<lparr>ir_video_id = JNull,
               embeddings = Some [\<lparr>er_id = Some (JInt 1), er_embedding = Some (replicate 384 0)\<rparr>]\<rparr>,
        Clear,
        Index \<lparr>ir_video_id = JNull,
               embeddings = Some [\<lparr>er_id = Some (JInt 2), er_embedding = Some (replicate 384 1)\<rparr>]\<rparr>])
     = [replicate 384 1]"
  by (simp add: run_def index_one_record get_faiss_index_def initial_state_def IndexFlatL2_def
        embedding_dim_def save_faiss_index_def clear_index_def vectors_def str_nat_small
        digit_char_def)

text \<open>
  C5 (amended). In every state reached from a fresh service (no persisted files) by
  requests whose embedding records carry an \<open>id\<close>, restarts of the process included,
  the metadata keys are exactly the positions \<open>0 .. ntotal - 1\<close> of the index in
  memory, so there are as many metadata entries as vectors. Every request other than
  \<open>/clear\<close> (and a restart) keeps the vectors already in the index at their positions
  with their metadata entries and only appends; \<open>/clear\<close> empties the index, after
  which positions start at 0 again.
\<close>

theorem entries_match_vectors:
  assumes "\<forall>r \<in> set rs. well_formed r"
  shows "entry_count (run enc initial_state rs) = vector_count (run enc initial_state rs)
       \<and> dom (metadata (run enc initial_state rs)) =
           str_nat ` {..<vector_count (run enc initial_state rs)}
       \<and> (r \<noteq> Clear \<and> r \<noteq> Restart \<longrightarrow>
            vector_count (run enc initial_state rs) \<le> vector_count (step enc (run enc initial_state rs) r)
          \<and> take (vector_count (run enc initial_state rs)) (vectors (step enc (run enc initial_state rs) r))
              = vectors (run enc initial_state rs)
          \<and> (\<forall>p < vector_count (run enc initial_state rs).
                metadata (step enc (run enc initial_state rs) r) (str_nat p)
                  = metadata (run enc initial_state rs) (str_nat p)))
       \<and> vector_count (step enc (run enc initial_state rs) Clear) = 0"
proof -
  have c: "consistent (run enc initial_state rs)"
    using consistent_initial assms by (rule consistent_run)
  have d: "dom (metadata (run enc initial_state rs)) =
      str_nat ` {..<vector_count (run enc initial_state rs)}"
    using c by (rule consistent_counts)
  then have "entry_count (run enc initial_state rs) = vector_count (run enc initial_state rs)"
    by (simp add: entry_count_def card_str_nat)
  moreover have "vector_count (step enc (run enc initial_state rs) Clear) = 0"
    by (simp add: clear_index_def save_faiss_index_def vector_count_def vectors_def IndexFlatL2_def)
  moreover have "r \<noteq> Clear \<and> r \<noteq> Restart \<longrightarrow> extends (run enc initial_state rs) (step enc (run enc initial_state rs) r)"
    by (simp add: extends_step)
  ultimately show ?thesis using d by (simp add: extends_def)
qed

theorem entries_match_vectors_witness:
  "entry_count (run (map (\<lambda>t. replicate 384 0)) initial_state
       [Index \<lparr>ir_video_id = JNull,
               embeddings = Some [\<lparr>er_id = Some (JInt 1), er_embedding = Some (replicate 384 0)\<rparr>]\<rparr>,
        Restart, Health])
     = vector_count (run (map (\<lambda>t. replicate 384 0)) initial_state
       [Index \<lparr>ir_video_id = JNull,
               embeddings = Some [\<lparr>er_id = Some (JInt 1), er_embedding = Some (replicate 384 0)\<rparr>]\<rparr>,
        Restart, Health])
   \<and> vector_count (run (map (\<lambda>t. replicate 384 0)) initial_state
       [Index \<lparr>ir_video_id = JNull,
               embeddings = Some [\<lparr>er_id = Some (JInt 1), er_embedding = Some (replicate 384 0)\<rparr>]\<rparr>,
        Restart, Health]) = 1
   \<and> vector_count (run (map (\<lambda>t. replicate 384 0)) initial_state
       [Index \<lparr>ir_video_id = JNull,
               embeddings = Some [\<lparr>er_id = Some (JInt 1), er_embedding = Some (replicate 384 0)\<rparr>]\<rparr>,
        Restart, Health])
     \<le> vector_count (step (map (\<lambda>t. replicate 384 0))
          (run (map (\<lambda>t. replicate 384 0)) initial_state
            [Index \<lparr>ir_video_id = JNull,
                    embeddings = Some [\<lparr>er_id = Some (JInt 1), er_embedding = Some (replicate 384 0)\<rparr>]\<rparr>,
             Restart, Health])
          (Index \<lparr>ir_video_id = JNull,
                  embeddings = Some [\<lparr>er_id = Some (JInt 2), er_embedding = Some (replicate 384 1)\<rparr>]\<rparr>))"
proof -
  let ?enc = "map (\<lambda>t. replicate 384 0) :: string list \<Rightarrow> real list list"
  let ?rs = "[Index \<lparr>ir_video_id = JNull,
               embeddings = Some [\<lparr>er_id = Some (JInt 1), er_embedding = Some (replicate 384 0)\<rparr>]\<rparr>,
        Restart, Health]"
  let ?r = "Index \<lparr>ir_video_id = JNull,
                  embeddings = Some [\<lparr>er_id = Some (JInt 2), er_embedding = Some (replicate 384 1)\<rparr>]\<rparr>"
  have wf: "\<forall>r \<in> set ?rs. well_formed r" by simp
  have r: "?r \<noteq> Clear \<and> ?r \<noteq> Restart" by simp
  have n: "vector_count (run ?enc initial_state ?rs) = 1"
    by (simp add: run_def index_one_record get_faiss_index_def initial_state_def IndexFlatL2_def
        embedding_dim_def save_faiss_index_def restart_def health_def vector_count_def vectors_def)
  from entries_match_vectors [OF wf, of ?enc ?r] r n show ?thesis
    by simp
qed

end
